theory Spec2Isabelle
  imports Complex_Main "HOL-Library.Word"
begin

section \<open>Strings of the host language\<close>

text \<open>
  A string of the program is a sequence of 16-bit code units. String literals of the
  source are written \<open>str ''...''\<close>; every character of such a literal is ASCII, so
  its code unit is the character's code.
\<close>

type_synonym code_unit = "16 word"
type_synonym jstring = "code_unit list"

definition cu :: "char \<Rightarrow> code_unit" where
  "cu c = of_char c"

definition str :: "string \<Rightarrow> jstring" where
  "str s = map cu s"

text \<open>
  \<open>s.indexOf(c)\<close> for a search string of one code unit: the position of the first
  occurrence, or \<open>-1\<close> when there is none.
\<close>

fun indexOf :: "jstring \<Rightarrow> code_unit \<Rightarrow> int" where
  "indexOf [] c = -1"
| "indexOf (x # xs) c =
     (if x = c then 0 else (let i = indexOf xs c in if i < 0 then -1 else i + 1))"

text \<open>
  \<open>s.slice(start, end)\<close>: a negative index counts from the end of the string, both
  indices are clamped to the string, and an empty range gives the empty string.
  \<open>slice_from\<close> is the call with the second argument left out.
\<close>

definition slice' :: "jstring \<Rightarrow> int \<Rightarrow> int \<Rightarrow> jstring" where
  "slice' s start end =
     (let len = int (length s);
          from = (if start < 0 then max (len + start) 0 else min start len);
          to = (if end < 0 then max (len + end) 0 else min end len)
      in take (nat (max (to - from) 0)) (drop (nat from) s))"

definition slice_from :: "jstring \<Rightarrow> int \<Rightarrow> jstring" where
  "slice_from s start = slice' s start (int (length s))"

text \<open>
  The class \<open>\s\<close> of the regular expression \<open>/;\s*/\<close>: white space and line
  terminators, matched code unit by code unit.
\<close>

definition is_space :: "code_unit \<Rightarrow> bool" where
  "is_space c \<longleftrightarrow>
     c \<in> {0x9, 0xA, 0xB, 0xC, 0xD, 0x20, 0xA0, 0x1680, 0x2028, 0x2029, 0x202F, 0x205F, 0x3000, 0xFEFF}
     \<or> (0x2000 \<le> c \<and> c \<le> 0x200A)"

text \<open>
  \<open>s.split(splitter)\<close> with \<open>splitter = /;\s*/\<close>. A match starts at a semicolon and
  takes every white-space code unit after it; the pieces between the matches are the
  result, and the piece after the last match is always there, also when it is empty.
  The pattern does not match the empty string, so the empty string gives one empty
  piece.
\<close>

function split_splitter :: "jstring \<Rightarrow> jstring list" where
  "split_splitter s =
     (case dropWhile (\<lambda>c. c \<noteq> cu CHR '';'') s of
        [] \<Rightarrow> [s]
      | _ # rest \<Rightarrow>
          takeWhile (\<lambda>c. c \<noteq> cu CHR '';'') s # split_splitter (dropWhile is_space rest))"
  by pat_completeness auto
termination
proof (relation "measure length", goal_cases)
  case 1
  show ?case by simp
next
  case (2 s x rest)
  have "length (dropWhile is_space rest) \<le> length rest"
    by (rule length_dropWhile_le)
  moreover have "length (dropWhile (\<lambda>c. c \<noteq> cu CHR '';'') s) \<le> length s"
    by (rule length_dropWhile_le)
  ultimately show ?case using 2 by simp
qed

text \<open>
  \<open>s.split(sep)\<close> with a separator string of one code unit: the pieces between the
  occurrences of the separator.
\<close>

function split_on :: "code_unit \<Rightarrow> jstring \<Rightarrow> jstring list" where
  "split_on sep s =
     (case dropWhile (\<lambda>c. c \<noteq> sep) s of
        [] \<Rightarrow> [s]
      | _ # rest \<Rightarrow> takeWhile (\<lambda>c. c \<noteq> sep) s # split_on sep rest)"
  by pat_completeness auto
termination
proof (relation "measure (\<lambda>(sep, s). length s)", goal_cases)
  case 1
  show ?case by simp
next
  case (2 sep s x rest)
  have "length (dropWhile (\<lambda>c. c \<noteq> sep) s) \<le> length s"
    by (rule length_dropWhile_le)
  then show ?case using 2 by simp
qed

declare split_splitter.simps [simp del]
declare split_on.simps [simp del]

section \<open>Percent-encoding\<close>

datatype error = URIError | TypeError

text \<open>
  The code units that \<open>encodeURIComponent\<close> copies unchanged: the ASCII letters and
  digits and \<open>_ - . ! ~ * ' ( )\<close>.
\<close>

definition unescaped :: "code_unit \<Rightarrow> bool" where
  "unescaped c \<longleftrightarrow>
     c \<in> set (str ''ABCDEFGHIJKLMNOPQRSTUVWXYZabcdefghijklmnopqrstuvwxyz0123456789_-.!~*()'')
     \<or> c = 0x27"

definition is_lead :: "code_unit \<Rightarrow> bool" where
  "is_lead c \<longleftrightarrow> 0xD800 \<le> c \<and> c \<le> 0xDBFF"

definition is_trail :: "code_unit \<Rightarrow> bool" where
  "is_trail c \<longleftrightarrow> 0xDC00 \<le> c \<and> c \<le> 0xDFFF"

definition UTF16SurrogatePairToCodePoint :: "code_unit \<Rightarrow> code_unit \<Rightarrow> nat" where
  "UTF16SurrogatePairToCodePoint lead trail =
     (unat lead - 0xD800) * 0x400 + (unat trail - 0xDC00) + 0x10000"

text \<open>
  The code point at the head of a non-empty string: the code point, the number of code
  units it takes, and whether it is an unpaired surrogate.
\<close>

fun CodePointAt :: "code_unit \<Rightarrow> jstring \<Rightarrow> nat \<times> nat \<times> bool" where
  "CodePointAt first rest =
     (if \<not> is_lead first \<and> \<not> is_trail first then (unat first, 1, False)
      else if is_trail first \<or> rest = [] then (unat first, 1, True)
      else if \<not> is_trail (hd rest) then (unat first, 1, True)
      else (UTF16SurrogatePairToCodePoint first (hd rest), 2, False))"

text \<open>The UTF-8 octets of a code point.\<close>

definition utf8_encode :: "nat \<Rightarrow> nat list" where
  "utf8_encode cp =
     (if cp < 0x80 then [cp]
      else if cp < 0x800 then [0xC0 + cp div 0x40, 0x80 + cp mod 0x40]
      else if cp < 0x10000 then
        [0xE0 + cp div 0x1000, 0x80 + cp div 0x40 mod 0x40, 0x80 + cp mod 0x40]
      else
        [0xF0 + cp div 0x40000, 0x80 + cp div 0x1000 mod 0x40,
         0x80 + cp div 0x40 mod 0x40, 0x80 + cp mod 0x40])"

text \<open>The hexadecimal digit of a number below 16.\<close>

definition hex_digit :: "nat \<Rightarrow> code_unit" where
  "hex_digit n = str ''0123456789ABCDEF'' ! n"

text \<open>An octet as \<open>%XX\<close>, two upper-case hexadecimal digits.\<close>

definition escape_octet :: "nat \<Rightarrow> jstring" where
  "escape_octet b = [cu CHR ''%'', hex_digit (b div 16), hex_digit (b mod 16)]"

text \<open>
  \<open>encodeURIComponent(s)\<close>. It throws \<open>URIError\<close> (here \<open>None\<close>) at a surrogate
  code unit that is not part of a pair.
\<close>

fun encodeURIComponent :: "jstring \<Rightarrow> jstring option" where
  "encodeURIComponent [] = Some []"
| "encodeURIComponent (c # s) =
     (if unescaped c then map_option ((#) c) (encodeURIComponent s)
      else (case CodePointAt c s of
          (cp, n, unpaired) \<Rightarrow>
            if unpaired then None
            else map_option ((@) (concat (map escape_octet (utf8_encode cp))))
                   (encodeURIComponent (drop (n - 1) s))))"

definition hex_value :: "code_unit \<Rightarrow> nat option" where
  "hex_value c =
     (if 0x30 \<le> c \<and> c \<le> 0x39 then Some (unat c - 0x30)
      else if 0x41 \<le> c \<and> c \<le> 0x46 then Some (unat c - 0x37)
      else if 0x61 \<le> c \<and> c \<le> 0x66 then Some (unat c - 0x57)
      else None)"

definition ParseHexOctet :: "code_unit \<Rightarrow> code_unit \<Rightarrow> nat option" where
  "ParseHexOctet h1 h2 =
     (case (hex_value h1, hex_value h2) of
        (Some a, Some b) \<Rightarrow> Some (16 * a + b)
      | _ \<Rightarrow> None)"

text \<open>The number of leading 1 bits of an octet.\<close>

definition leading_ones :: "nat \<Rightarrow> nat" where
  "leading_ones b =
     (if b < 0x80 then 0 else if b < 0xC0 then 1 else if b < 0xE0 then 2
      else if b < 0xF0 then 3 else if b < 0xF8 then 4 else if b < 0xFC then 5
      else if b < 0xFE then 6 else if b < 0xFF then 7 else 8)"

text \<open>
  The next \<open>j\<close> escapes \<open>%XX\<close> of a string: their octets and the rest of the string,
  or \<open>None\<close> when the string does not start with \<open>j\<close> escapes.
\<close>

fun continuation :: "nat \<Rightarrow> jstring \<Rightarrow> (nat list \<times> jstring) option" where
  "continuation 0 s = Some ([], s)"
| "continuation (Suc j) (p # h1 # h2 # s) =
     (if p \<noteq> cu CHR ''%'' then None
      else (case ParseHexOctet h1 h2 of
          None \<Rightarrow> None
        | Some b \<Rightarrow> map_option (\<lambda>(bs, r). (b # bs, r)) (continuation j s)))"
| "continuation (Suc j) s = None"

definition is_cont :: "nat \<Rightarrow> bool" where
  "is_cont b \<longleftrightarrow> 0x80 \<le> b \<and> b < 0xC0"

text \<open>
  The code point of a sequence of two to four octets, when the sequence is a valid
  UTF-8 encoding: continuation octets are \<open>10xxxxxx\<close>, the encoding is the shortest
  one, and the code point is neither a surrogate nor above \<open>0x10FFFF\<close>.
\<close>

fun utf8_decode :: "nat list \<Rightarrow> nat option" where
  "utf8_decode [b0, b1] =
     (let v = (b0 - 0xC0) * 0x40 + (b1 - 0x80)
      in if is_cont b1 \<and> 0x80 \<le> v then Some v else None)"
| "utf8_decode [b0, b1, b2] =
     (let v = (b0 - 0xE0) * 0x1000 + (b1 - 0x80) * 0x40 + (b2 - 0x80)
      in if is_cont b1 \<and> is_cont b2 \<and> 0x800 \<le> v \<and> \<not> (0xD800 \<le> v \<and> v \<le> 0xDFFF)
         then Some v else None)"
| "utf8_decode [b0, b1, b2, b3] =
     (let v = (b0 - 0xF0) * 0x40000 + (b1 - 0x80) * 0x1000 + (b2 - 0x80) * 0x40 + (b3 - 0x80)
      in if is_cont b1 \<and> is_cont b2 \<and> is_cont b3 \<and> 0x10000 \<le> v \<and> v \<le> 0x10FFFF
         then Some v else None)"
| "utf8_decode bs = None"

definition UTF16EncodeCodePoint :: "nat \<Rightarrow> jstring" where
  "UTF16EncodeCodePoint cp =
     (if cp \<le> 0xFFFF then [of_nat cp]
      else [of_nat ((cp - 0x10000) div 0x400 + 0xD800),
            of_nat ((cp - 0x10000) mod 0x400 + 0xDC00)])"

text \<open>
  \<open>decodeURIComponent(s)\<close>. It throws \<open>URIError\<close> (here \<open>None\<close>) at a \<open>%\<close> that is
  not followed by two hexadecimal digits, and at escapes whose octets are not a valid
  UTF-8 encoding.
\<close>

function (sequential) decodeURIComponent :: "jstring \<Rightarrow> jstring option" where
  "decodeURIComponent [] = Some []"
| "decodeURIComponent (c # s) =
     (if c \<noteq> cu CHR ''%'' then map_option ((#) c) (decodeURIComponent s)
      else (case s of
          h1 # h2 # s' \<Rightarrow>
            (case ParseHexOctet h1 h2 of
               None \<Rightarrow> None
             | Some b \<Rightarrow>
                 if leading_ones b = 0 then map_option ((#) (of_nat b)) (decodeURIComponent s')
                 else if leading_ones b = 1 \<or> 4 < leading_ones b then None
                 else (case continuation (leading_ones b - 1) s' of
                     None \<Rightarrow> None
                   | Some (octets, s'') \<Rightarrow>
                       (case utf8_decode (b # octets) of
                          None \<Rightarrow> None
                        | Some v \<Rightarrow>
                            map_option ((@) (UTF16EncodeCodePoint v)) (decodeURIComponent s''))))
        | _ \<Rightarrow> None))"
  by pat_completeness auto

lemma continuation_length:
  "continuation j s = Some (bs, r) \<Longrightarrow> length r \<le> length s"
proof (induction j s arbitrary: bs r rule: continuation.induct)
  case (2 j p h1 h2 s)
  from "2.prems" obtain b bs' where b: "ParseHexOctet h1 h2 = Some b"
    and c: "continuation j s = Some (bs', r)"
    by (auto split: if_splits option.splits)
  from "2.IH" [OF _ b c] "2.prems" have "length r \<le> length s"
    by (simp split: if_splits)
  then show ?case by simp
qed simp_all

termination decodeURIComponent
  by (relation "measure length") (auto dest!: continuation_length)

declare decodeURIComponent.simps [simp del]

text \<open>
  A string is well formed when every surrogate code unit in it is part of a pair, a
  leading surrogate followed by a trailing one (\<open>s.isWellFormed()\<close>).
\<close>

fun well_formed :: "jstring \<Rightarrow> bool" where
  "well_formed [] = True"
| "well_formed [c] = (\<not> is_lead c \<and> \<not> is_trail c)"
| "well_formed (c # d # s) =
     (if is_lead c then is_trail d \<and> well_formed s else \<not> is_trail c \<and> well_formed (d # s))"

section \<open>Values, options and the store\<close>

text \<open>
  The values a caller can pass. A number is not-a-number, an infinity or a finite
  number; an object is kept with its \<open>cookie\<close> property only (\<open>None\<close> when it has
  none).
\<close>

datatype number = NaN | Infinity bool | Finite real

datatype jsval =
    JUndefined
  | JNull
  | JBoolean bool
  | JNumber number
  | JString (the_string: jstring)
  | JObject "jsval option"

fun typeof :: "jsval \<Rightarrow> string" where
  "typeof JUndefined = ''undefined''"
| "typeof JNull = ''object''"
| "typeof (JBoolean b) = ''boolean''"
| "typeof (JNumber n) = ''number''"
| "typeof (JString s) = ''string''"
| "typeof (JObject c) = ''object''"

fun truthy :: "jsval \<Rightarrow> bool" where
  "truthy JUndefined = False"
| "truthy JNull = False"
| "truthy (JBoolean b) = b"
| "truthy (JNumber n) = (n \<noteq> NaN \<and> n \<noteq> Finite 0)"
| "truthy (JString s) = (s \<noteq> [])"
| "truthy (JObject c) = True"

text \<open>
  The options object of \<open>setItem\<close>. \<open>expires\<close>, \<open>path\<close> and \<open>domain\<close> are \<open>None\<close>
  when the object has no such property, and otherwise hold the string that
  \<open>'; expires=' + opts.expires\<close> appends for the property's value. \<open>secure\<close> is the
  property's value, \<open>JUndefined\<close> when the object has none. An object has its properties
  in no order.
\<close>

record cookie_opts =
  expires :: "jstring option"
  path :: "jstring option"
  domain :: "jstring option"
  secure :: jsval

definition empty_opts :: cookie_opts where
  "empty_opts = \<lparr>expires = None, path = None, domain = None, secure = JUndefined\<rparr>"

text \<open>The second argument of the write hook: \<open>{remove, value, opts, key}\<close>.\<close>

record meta =
  meta_remove :: bool
  meta_value :: jstring
  meta_opts :: cookie_opts
  meta_key :: jstring

text \<open>
  What the program and its hooks can change: the \<open>cookie\<close> field of \<open>doc\<close> and
  whatever else the hooks hold (\<open>env\<close>). \<open>doc\<close> is a plain object: reading its
  \<open>cookie\<close> field gives the string last assigned to it. A browser's \<open>document\<close>, whose
  \<open>cookie\<close> property merges what is assigned into a cookie jar, is not modelled.
\<close>

record 'h heap =
  cookie :: jstring
  env :: 'h

text \<open>
  \<open>options.read\<close> and \<open>options.write\<close>, \<open>None\<close> when not given. A hook is any function
  that returns; it may change the heap. The read hook returns the entries as strings.
\<close>

record 'h options =
  read_hook :: "('h heap \<Rightarrow> jstring list \<times> 'h heap) option"
  write_hook :: "(jstring \<Rightarrow> meta \<Rightarrow> 'h heap \<Rightarrow> jsval \<times> 'h heap) option"

text \<open>
  A state is the heap together with the trace of the calls of \<open>write\<close> (here
  \<open>write'\<close>) so far, each with its two arguments, oldest first. The trace is an
  observation: neither the program nor a hook reads it.
\<close>

type_synonym 'h state = "'h heap \<times> (jstring \<times> meta) list"

text \<open>
  \<open>bake(doc, options)\<close> up to the cookie line of the store it builds. \<open>document\<close> is the
  global of that name, \<open>None\<close> where there is none. The assignment \<open>doc.cookie = ''\<close>
  to a number or a boolean throws, the file being in strict mode.
\<close>

definition bake :: "jsval option \<Rightarrow> jsval \<Rightarrow> error + jstring" where
  "bake document doc =
     (case (if \<not> truthy doc then
              (case document of
                 None \<Rightarrow> Inr (JObject None)
               | Some JUndefined \<Rightarrow> Inr (JObject None)
               | Some JNull \<Rightarrow> Inl TypeError
               | Some (JObject (Some (JString c))) \<Rightarrow> Inr (JObject (Some (JString c)))
               | Some d \<Rightarrow> Inr (JObject None))
            else Inr doc) of
        Inl e \<Rightarrow> Inl e
      | Inr (JString s) \<Rightarrow> Inr s
      | Inr (JObject (Some (JString c))) \<Rightarrow> Inr c
      | Inr (JObject c) \<Rightarrow> Inr []
      | Inr d \<Rightarrow> Inl TypeError)"

section \<open>The operations\<close>

definition read :: "'h options \<Rightarrow> 'h state \<Rightarrow> jstring list \<times> 'h state" where
  "read cfg st =
     (case st of (h, t) \<Rightarrow>
        (case read_hook cfg of
           Some f \<Rightarrow> (case f h of (cookies, h') \<Rightarrow> (cookies, (h', t)))
         | None \<Rightarrow> (split_splitter (cookie h), (h, t))))"

definition write' :: "'h options \<Rightarrow> jstring \<Rightarrow> meta \<Rightarrow> 'h state \<Rightarrow> jsval \<times> 'h state" where
  "write' cfg c m st =
     (case st of (h, t) \<Rightarrow>
        (case write_hook cfg of
           Some f \<Rightarrow> (case f c m h of (r, h') \<Rightarrow> (r, (h', t @ [(c, m)])))
         | None \<Rightarrow> (JString c, (h\<lparr>cookie := c\<rparr>, t @ [(c, m)]))))"

text \<open>
  The loop of \<open>getItem\<close> over the entries that are left. The key is a string, as it is
  for \<open>removeItem\<close>.
\<close>

fun getItem_loop :: "jstring \<Rightarrow> jstring list \<Rightarrow> error + jsval" where
  "getItem_loop key [] = Inr JUndefined"
| "getItem_loop key (c # cookies) =
     (let index = indexOf c (cu CHR ''='')
      in case decodeURIComponent (slice' c 0 index) of
           None \<Rightarrow> Inl URIError
         | Some name \<Rightarrow>
             if name = key then
               (case decodeURIComponent (slice_from c (index + 1)) of
                  None \<Rightarrow> Inl URIError
                | Some v \<Rightarrow> Inr (JString v))
             else getItem_loop key cookies)"

definition getItem :: "'h options \<Rightarrow> jstring \<Rightarrow> 'h state \<Rightarrow> (error + jsval) \<times> 'h state" where
  "getItem cfg key st =
     (case read cfg st of (cookies, st') \<Rightarrow> (getItem_loop key cookies, st'))"

definition setItem ::
  "'h options \<Rightarrow> jsval \<Rightarrow> jsval \<Rightarrow> cookie_opts option \<Rightarrow> 'h state \<Rightarrow> (error + jsval) \<times> 'h state"
where
  "setItem cfg key val opts st =
     (if typeof key \<noteq> ''string'' \<or> typeof val \<noteq> ''string'' then (Inr (JBoolean False), st)
      else
        (let opts = (case opts of None \<Rightarrow> empty_opts | Some given \<Rightarrow> given)
         in case encodeURIComponent (the_string val) of
              None \<Rightarrow> (Inl URIError, st)
            | Some val \<Rightarrow>
                (case encodeURIComponent (the_string key) of
                   None \<Rightarrow> (Inl URIError, st)
                 | Some key \<Rightarrow>
                     (let c = key @ str ''='' @ val;
                          c = (case expires opts of None \<Rightarrow> c | Some e \<Rightarrow> c @ str ''; expires='' @ e);
                          c = (case path opts of None \<Rightarrow> c | Some p \<Rightarrow> c @ str ''; path='' @ p);
                          c = (case domain opts of None \<Rightarrow> c | Some d \<Rightarrow> c @ str ''; domain='' @ d);
                          c = (if truthy (secure opts) then c @ str ''; secure'' else c)
                      in case write' cfg c
                             \<lparr>meta_remove = False, meta_value = val, meta_opts = opts,
                              meta_key = key\<rparr> st of
                           (r, st') \<Rightarrow> (Inr r, st')))))"

definition removeItem :: "'h options \<Rightarrow> jstring \<Rightarrow> 'h state \<Rightarrow> jsval \<times> 'h state" where
  "removeItem cfg key st =
     write' cfg (key @ str ''=;expires=Thu, 01 Jan 1970 00:00:01 GMT;'')
       \<lparr>meta_remove = True, meta_value = [], meta_opts = empty_opts, meta_key = key\<rparr> st"

text \<open>
  The loop of \<open>clear\<close> over the entries that are left. \<open>cookies[i].split('=')[0]\<close> is
  the first piece; were there none, \<open>decodeURIComponent\<close> would get \<open>undefined\<close>.
\<close>

fun clear_loop :: "'h options \<Rightarrow> jstring list \<Rightarrow> 'h state \<Rightarrow> (error + jsval) \<times> 'h state" where
  "clear_loop cfg [] st = (Inr JUndefined, st)"
| "clear_loop cfg (c # cookies) st =
     (case decodeURIComponent
             (case split_on (cu CHR ''='') c of [] \<Rightarrow> str ''undefined'' | p # ps \<Rightarrow> p) of
        None \<Rightarrow> (Inl URIError, st)
      | Some name \<Rightarrow> clear_loop cfg cookies (snd (removeItem cfg name st)))"

definition clear :: "'h options \<Rightarrow> 'h state \<Rightarrow> (error + jsval) \<times> 'h state" where
  "clear cfg st = (case read cfg st of (cookies, st') \<Rightarrow> clear_loop cfg cookies st')"

text \<open>No hooks: \<open>options\<close> left out, or \<open>{}\<close>.\<close>

definition no_hooks :: "'h options" where
  "no_hooks = \<lparr>read_hook = None, write_hook = None\<rparr>"

text \<open>The name and the value \<open>getItem\<close> reads from an entry, \<open>None\<close> where it throws.\<close>

definition entry_name :: "jstring \<Rightarrow> jstring option" where
  "entry_name c = decodeURIComponent (slice' c 0 (indexOf c (cu CHR ''='')))"

definition entry_value :: "jstring \<Rightarrow> jstring option" where
  "entry_value c = decodeURIComponent (slice_from c (indexOf c (cu CHR ''='') + 1))"

text \<open>A write hook that only collects its calls, in \<open>env\<close>.\<close>

definition collecting :: "(jstring \<times> meta) list options" where
  "collecting =
     \<lparr>read_hook = None,
      write_hook = Some (\<lambda>c m h. (JUndefined, h\<lparr>env := env h @ [(c, m)]\<rparr>))\<rparr>"

text \<open>The two arguments \<open>removeItem(key)\<close> calls \<open>write\<close> with.\<close>

definition removal :: "jstring \<Rightarrow> jstring \<times> meta" where
  "removal key =
     (key @ str ''=;expires=Thu, 01 Jan 1970 00:00:01 GMT;'',
      \<lparr>meta_remove = True, meta_value = [], meta_opts = empty_opts, meta_key = key\<rparr>)"

lemmas eval_defs = clear_def getItem_def read_def write'_def removeItem_def collecting_def
  no_hooks_def split_splitter.simps split_on.simps decodeURIComponent.simps str_def cu_def
  is_space_def slice'_def slice_from_def removal_def

section \<open>Reading an empty store\<close>

lemma split_splitter_Nil: "split_splitter [] = [[]]"
  by (simp add: split_splitter.simps)

lemma decodeURIComponent_Nil: "decodeURIComponent [] = Some []"
  by (simp add: decodeURIComponent.simps)

lemma read_empty:
  "read_hook cfg = None \<Longrightarrow> cookie h = [] \<Longrightarrow> read cfg (h, t) = ([[]], (h, t))"
  by (simp add: read_def split_splitter_Nil)

text \<open>
  C10. On a store whose cookie line is the empty string, with no read hook,
  \<open>getItem('')\<close> returns the empty string and not \<open>undefined\<close>: the empty line
  splits into one empty entry, whose name and value are both empty. Nothing is written.
\<close>

theorem getItem_empty_key_empty_store:
  assumes "read_hook cfg = None" and "cookie h = []"
  shows "getItem cfg [] (h, t) = (Inr (JString []), (h, t))"
  using assms
  by (simp add: getItem_def read_empty slice'_def slice_from_def decodeURIComponent_Nil)

theorem getItem_empty_key_empty_store_witness:
  "bake None JUndefined = Inr [] \<and>
   getItem no_hooks (str '''') (\<lparr>cookie = [], env = ()\<rparr>, [])
     = (Inr (JString (str '''')), (\<lparr>cookie = [], env = ()\<rparr>, []))"
  using getItem_empty_key_empty_store [of no_hooks "\<lparr>cookie = [], env = ()\<rparr>" "[]"]
  by (simp add: no_hooks_def bake_def str_def)

text \<open>
  C9. On a store whose cookie line is the empty string, with no read hook, \<open>getItem\<close>
  returns \<open>undefined\<close> for every key but the empty string, \<open>'missing'\<close> among them.
\<close>

theorem getItem_absent_on_empty_store:
  assumes "read_hook cfg = None" and "cookie h = []" and "key \<noteq> []"
  shows "getItem cfg key (h, t) = (Inr JUndefined, (h, t))"
  using assms
  by (simp add: getItem_def read_empty slice'_def slice_from_def decodeURIComponent_Nil)

theorem getItem_absent_on_empty_store_witness:
  "getItem no_hooks (str ''missing'') (\<lparr>cookie = str '''', env = ()\<rparr>, [])
     = (Inr JUndefined, (\<lparr>cookie = str '''', env = ()\<rparr>, []))"
  using getItem_absent_on_empty_store
          [of no_hooks "\<lparr>cookie = str '''', env = ()\<rparr>" "str ''missing''" "[]"]
  by (simp add: no_hooks_def str_def)

section \<open>Arguments that are not strings\<close>

text \<open>
  C2. When the key or the value is not a string, \<open>setItem\<close> returns \<open>false\<close> and
  leaves the state as it was, whatever the hooks are: the cookie field and what the
  hooks hold are unchanged and the trace has no new call of \<open>write\<close>.
\<close>

theorem setItem_rejects_non_strings:
  assumes "typeof key \<noteq> ''string'' \<or> typeof val \<noteq> ''string''"
  shows "setItem cfg key val opts st = (Inr (JBoolean False), st)"
  using assms by (simp add: setItem_def)

theorem setItem_rejects_non_strings_witness:
  "setItem collecting (JNumber (Finite 42)) (JString (str ''v'')) None
       (\<lparr>cookie = str ''a=1'', env = []\<rparr>, [])
     = (Inr (JBoolean False), (\<lparr>cookie = str ''a=1'', env = []\<rparr>, [])) \<and>
   setItem no_hooks (JString (str ''k'')) JNull None (\<lparr>cookie = str ''a=1'', env = ()\<rparr>, [])
     = (Inr (JBoolean False), (\<lparr>cookie = str ''a=1'', env = ()\<rparr>, []))"
  using setItem_rejects_non_strings
          [of "JNumber (Finite 42)" "JString (str ''v'')" collecting None
              "(\<lparr>cookie = str ''a=1'', env = []\<rparr>, [])"]
        setItem_rejects_non_strings
          [of "JString (str ''k'')" JNull no_hooks None
              "(\<lparr>cookie = str ''a=1'', env = ()\<rparr>, [])"]
  by simp

section \<open>Removing\<close>

lemma removeItem_removal:
  "removeItem cfg k st = write' cfg (fst (removal k)) (snd (removal k)) st"
  by (simp add: removeItem_def removal_def)

lemma write'_trace: "snd (snd (write' cfg c m (h, t))) = t @ [(c, m)]"
  by (simp add: write'_def split: option.split prod.split)

text \<open>
  C5. \<open>removeItem(k)\<close> calls \<open>write\<close> once, with the string
  \<open>k + '=;expires=Thu, 01 Jan 1970 00:00:01 GMT;'\<close>, the key as it is and not
  percent-encoded, and with \<open>{remove: true, value: '', opts: {}, key: k}\<close>; it returns
  what \<open>write\<close> returns: the result of the write hook, or without one the string, which
  is then the cookie field.
\<close>

theorem removeItem_writes_expiry:
  "(let c = k @ str ''=;expires=Thu, 01 Jan 1970 00:00:01 GMT;'';
        m = \<lparr>meta_remove = True, meta_value = [], meta_opts = empty_opts, meta_key = k\<rparr>
    in removeItem cfg k (h, t) = write' cfg c m (h, t) \<and>
       removeItem cfg k (h, t) =
         (case write_hook cfg of
            None \<Rightarrow> (JString c, (h\<lparr>cookie := c\<rparr>, t @ [(c, m)]))
          | Some f \<Rightarrow> (fst (f c m h), (snd (f c m h), t @ [(c, m)]))))"
  by (simp add: removeItem_def write'_def Let_def split: option.split prod.split)

theorem removeItem_writes_expiry_witness:
  "removeItem no_hooks (str ''a b'') (\<lparr>cookie = str ''a%20b=1'', env = ()\<rparr>, []) =
     (JString (str ''a b=;expires=Thu, 01 Jan 1970 00:00:01 GMT;''),
      (\<lparr>cookie = str ''a b=;expires=Thu, 01 Jan 1970 00:00:01 GMT;'', env = ()\<rparr>,
       [(str ''a b=;expires=Thu, 01 Jan 1970 00:00:01 GMT;'',
         \<lparr>meta_remove = True, meta_value = [], meta_opts = empty_opts,
          meta_key = str ''a b''\<rparr>)]))"
  using removeItem_writes_expiry
          [of "str ''a b''" no_hooks "\<lparr>cookie = str ''a%20b=1'', env = ()\<rparr>" "[]"]
  by (simp add: no_hooks_def Let_def str_def write'_def)

section \<open>Clearing\<close>

lemma split_on_first:
  "(case split_on sep c of [] \<Rightarrow> d | p # ps \<Rightarrow> p) = takeWhile (\<lambda>x. x \<noteq> sep) c"
proof (cases "dropWhile (\<lambda>x. x \<noteq> sep) c")
  case Nil
  then have "takeWhile (\<lambda>x. x \<noteq> sep) c = c"
    by (simp add: dropWhile_eq_Nil_conv)
  then show ?thesis by (subst split_on.simps) (simp only: Nil list.case)
next
  case (Cons x rest)
  then show ?thesis by (subst split_on.simps) (simp only: list.case)
qed

lemma clear_loop_all:
  "those (map (\<lambda>c. decodeURIComponent (takeWhile (\<lambda>x. x \<noteq> cu CHR ''='') c)) cookies) = Some names
   \<Longrightarrow> clear_loop cfg cookies st =
         (Inr JUndefined, fold (\<lambda>n s. snd (removeItem cfg n s)) names st)"
proof (induction cookies arbitrary: names st)
  case Nil
  then show ?case by simp
next
  case (Cons c cookies)
  from Cons.prems obtain n ns
    where n: "decodeURIComponent (takeWhile (\<lambda>x. x \<noteq> cu CHR ''='') c) = Some n"
      and ns: "those (map (\<lambda>c. decodeURIComponent (takeWhile (\<lambda>x. x \<noteq> cu CHR ''='') c)) cookies)
                 = Some ns"
      and names: "names = n # ns"
    by (auto split: option.splits)
  show ?case
    by (simp add: split_on_first n names Cons.IH [OF ns])
qed

lemma fold_removeItem_trace:
  "snd (fold (\<lambda>n s. snd (removeItem cfg n s)) names st) = snd st @ map removal names"
proof (induction names arbitrary: st)
  case Nil
  then show ?case by simp
next
  case (Cons n names)
  obtain h t where st: "st = (h, t)" by (cases st)
  have "snd (snd (removeItem cfg n st)) = snd st @ [removal n]"
    by (simp add: st removeItem_removal write'_trace)
  then show ?case by (simp add: Cons.IH)
qed

lemma those_length: "those xs = Some ys \<Longrightarrow> length ys = length xs"
  by (induction xs arbitrary: ys) (auto split: option.splits)

text \<open>
  C6, amended. With no read hook, when the name part of every entry of the cookie line
  (the entry up to its first \<open>=\<close>, the first piece of \<open>split('=')\<close>) percent-decodes
  without error, \<open>clear()\<close> returns \<open>undefined\<close> after calling \<open>removeItem\<close> on
  the decoded names, one per entry and in the order of the entries: the trace grows by
  exactly these calls of \<open>write\<close>, as many as there are entries. The entries are those
  of the line as it was when \<open>clear\<close> was called, whatever the write hook does.
\<close>

theorem clear_removes_each_entry:
  assumes "read_hook cfg = None"
    and "those (map (\<lambda>c. decodeURIComponent (takeWhile (\<lambda>x. x \<noteq> cu CHR ''='') c))
                  (split_splitter (cookie h))) = Some names"
  shows "clear cfg (h, t) = (Inr JUndefined, fold (\<lambda>n s. snd (removeItem cfg n s)) names (h, t))
    \<and> snd (snd (clear cfg (h, t))) = t @ map removal names
    \<and> length names = length (split_splitter (cookie h))"
proof -
  have r: "read cfg (h, t) = (split_splitter (cookie h), (h, t))"
    using assms(1) by (simp add: read_def)
  have c: "clear cfg (h, t) = (Inr JUndefined, fold (\<lambda>n s. snd (removeItem cfg n s)) names (h, t))"
    by (simp add: clear_def r clear_loop_all [OF assms(2)])
  have "snd (snd (clear cfg (h, t))) = t @ map removal names"
    by (simp add: c fold_removeItem_trace)
  moreover have "length names = length (split_splitter (cookie h))"
    using those_length [OF assms(2)] by simp
  ultimately show ?thesis using c by simp
qed

theorem clear_removes_each_entry_witness:
  "snd (snd (clear collecting (\<lparr>cookie = str ''a=1; b=2; c=3'', env = []\<rparr>, [])))
     = [removal (str ''a''), removal (str ''b''), removal (str ''c'')]
   \<and> length [str ''a'', str ''b'', str ''c''] = length (split_splitter (str ''a=1; b=2; c=3''))"
proof -
  let ?h = "\<lparr>cookie = str ''a=1; b=2; c=3'', env = []\<rparr> :: (jstring \<times> meta) list heap"
  have a: "read_hook collecting = None"
    by (simp add: collecting_def)
  have b: "those (map (\<lambda>c. decodeURIComponent (takeWhile (\<lambda>x. x \<noteq> cu CHR ''='') c))
                    (split_splitter (cookie ?h))) = Some [str ''a'', str ''b'', str ''c'']"
    by (simp add: split_splitter.simps str_def cu_def is_space_def decodeURIComponent.simps)
  from clear_removes_each_entry [OF a b, of "[]", THEN conjunct2] show ?thesis by simp
qed

text \<open>
  C6 as stated fails on a line with an entry whose name part does not decode: \<open>"%=1"\<close>
  has one entry, and \<open>clear()\<close> throws \<open>URIError\<close> without a call of \<open>write\<close>.
\<close>

theorem clear_stops_at_malformed_name:
  "clear no_hooks (\<lparr>cookie = str ''%=1'', env = ()\<rparr>, [])
     = (Inl URIError, (\<lparr>cookie = str ''%=1'', env = ()\<rparr>, []))
   \<and> length (split_splitter (str ''%=1'')) = 1"
  by (simp add: eval_defs)

text \<open>
  C7 as stated fails: the collecting hook is called in place of the assignment to the
  cookie field, so the line is as it was and \<open>getItem('a')\<close> still finds \<open>'1'\<close>.
\<close>

theorem getItem_after_clear_with_hook_finds_value:
  "fst (getItem collecting (str ''a'')
          (snd (clear collecting (\<lparr>cookie = str ''a=1; b=2; c=3'', env = []\<rparr>, []))))
     = Inr (JString (str ''1''))
   \<and> fst (getItem collecting (str ''a'')
          (snd (clear collecting (\<lparr>cookie = str ''a=1; b=2; c=3'', env = []\<rparr>, []))))
     \<noteq> Inr JUndefined"
  by (simp add: eval_defs)

text \<open>
  C7, amended. On a store seeded with \<open>"a=1; b=2; c=3"\<close> and a write hook that only
  collects its calls, \<open>clear()\<close> hands the hook the three removals and leaves the cookie
  line unchanged; \<open>getItem\<close> for \<open>'a'\<close>, \<open>'b'\<close> and \<open>'c'\<close> afterwards returns
  \<open>'1'\<close>, \<open>'2'\<close> and \<open>'3'\<close>.
\<close>

theorem clear_with_collecting_hook_keeps_line:
  "clear collecting (\<lparr>cookie = str ''a=1; b=2; c=3'', env = []\<rparr>, []) =
     (Inr JUndefined,
      (\<lparr>cookie = str ''a=1; b=2; c=3'',
        env = [removal (str ''a''), removal (str ''b''), removal (str ''c'')]\<rparr>,
       [removal (str ''a''), removal (str ''b''), removal (str ''c'')]))
   \<and> map (\<lambda>k. fst (getItem collecting k
                (snd (clear collecting (\<lparr>cookie = str ''a=1; b=2; c=3'', env = []\<rparr>, [])))))
         [str ''a'', str ''b'', str ''c'']
       = [Inr (JString (str ''1'')), Inr (JString (str ''2'')), Inr (JString (str ''3''))]"
  by (simp add: eval_defs)

section \<open>Reading entries\<close>

lemma getItem_loop_Cons:
  "getItem_loop key (c # cookies) =
     (case entry_name c of
        None \<Rightarrow> Inl URIError
      | Some name \<Rightarrow>
          if name = key then
            (case entry_value c of None \<Rightarrow> Inl URIError | Some v \<Rightarrow> Inr (JString v))
          else getItem_loop key cookies)"
  unfolding entry_name_def entry_value_def by (simp add: Let_def)

lemma indexOf_append:
  assumes "\<forall>x\<in>set a. x \<noteq> c"
  shows "indexOf (a @ c # b) c = int (length a)"
  using assms by (induction a) (simp_all add: Let_def)

lemma slice'_prefix: "slice' (a @ b) 0 (int (length a)) = a"
  by (simp add: slice'_def)

lemma slice_from_suffix: "slice_from (a @ c # b) (int (length a) + 1) = b"
  by (simp add: slice_from_def slice'_def nat_add_distrib)

text \<open>
  For an entry with a \<open>=\<close> in it, the name \<open>getItem\<close> reads is decoded from the text
  before the first \<open>=\<close> and the value from the text after it.
\<close>

lemma entry_with_delimiter:
  assumes "cu CHR ''='' \<in> set c"
  shows "entry_name c = decodeURIComponent (takeWhile (\<lambda>x. x \<noteq> cu CHR ''='') c)"
    and "entry_value c = decodeURIComponent (drop 1 (dropWhile (\<lambda>x. x \<noteq> cu CHR ''='') c))"
proof -
  define a where "a = takeWhile (\<lambda>x. x \<noteq> cu CHR ''='') c"
  define d where "d = dropWhile (\<lambda>x. x \<noteq> cu CHR ''='') c"
  from assms have "d \<noteq> []"
    by (auto simp: d_def dropWhile_eq_Nil_conv)
  moreover from this have "hd d = cu CHR ''=''"
    using hd_dropWhile [of "\<lambda>x. x \<noteq> cu CHR ''=''" c] by (simp add: d_def)
  ultimately obtain rest where d: "d = cu CHR ''='' # rest"
    by (cases d) auto
  have c: "c = a @ cu CHR ''='' # rest"
    using takeWhile_dropWhile_id [of "\<lambda>x. x \<noteq> cu CHR ''=''" c]
    by (simp add: a_def [symmetric] d_def [symmetric] d)
  have "\<forall>x\<in>set a. x \<noteq> cu CHR ''=''"
    by (auto simp: a_def dest: set_takeWhileD)
  then have i: "indexOf (a @ cu CHR ''='' # rest) (cu CHR ''='') = int (length a)"
    by (rule indexOf_append)
  have "entry_name (a @ cu CHR ''='' # rest) = decodeURIComponent a"
    by (simp add: entry_name_def i slice'_prefix)
  then have "entry_name c = decodeURIComponent a"
    by (subst c)
  then show "entry_name c = decodeURIComponent (takeWhile (\<lambda>x. x \<noteq> cu CHR ''='') c)"
    unfolding a_def .
  have "entry_value (a @ cu CHR ''='' # rest) = decodeURIComponent rest"
    by (simp add: entry_value_def i slice_from_suffix)
  then have "entry_value c = decodeURIComponent rest"
    by (subst c)
  then have "entry_value c = decodeURIComponent (drop 1 d)"
    by (simp add: d)
  then show "entry_value c
      = decodeURIComponent (drop 1 (dropWhile (\<lambda>x. x \<noteq> cu CHR ''='') c))"
    unfolding d_def .
qed

lemma getItem_loop_first_match:
  assumes "\<forall>e\<in>set before. cu CHR ''='' \<in> set e \<and>
             (\<exists>n. decodeURIComponent (takeWhile (\<lambda>x. x \<noteq> cu CHR ''='') e) = Some n \<and> n \<noteq> key)"
    and "cu CHR ''='' \<in> set c"
    and "decodeURIComponent (takeWhile (\<lambda>x. x \<noteq> cu CHR ''='') c) = Some key"
  shows "getItem_loop key (before @ c # after) =
           (case decodeURIComponent (drop 1 (dropWhile (\<lambda>x. x \<noteq> cu CHR ''='') c)) of
              None \<Rightarrow> Inl URIError
            | Some v \<Rightarrow> Inr (JString v))"
  using assms(1)
proof (induction before)
  case Nil
  have "entry_name c = Some key"
    by (simp only: entry_with_delimiter(1) [OF assms(2)] assms(3))
  then show ?case
    by (simp only: append_Nil getItem_loop_Cons entry_with_delimiter(2) [OF assms(2)]
          option.case simp_thms if_True)
next
  case (Cons e before)
  then obtain n where e: "cu CHR ''='' \<in> set e"
    and "decodeURIComponent (takeWhile (\<lambda>x. x \<noteq> cu CHR ''='') e) = Some n" and "n \<noteq> key"
    by auto
  then have "entry_name e = Some n" and "n \<noteq> key"
    by (simp_all add: entry_with_delimiter(1) [OF e])
  moreover from Cons have "getItem_loop key (before @ c # after) =
      (case decodeURIComponent (drop 1 (dropWhile (\<lambda>x. x \<noteq> cu CHR ''='') c)) of
         None \<Rightarrow> Inl URIError
       | Some v \<Rightarrow> Inr (JString v))"
    by simp
  ultimately show ?case
    by (simp only: append_Cons getItem_loop_Cons option.case if_False)
qed

text \<open>
  C3 as stated fails when an entry before the first match has a name that does not
  decode: in \<open>"%=0; a=1; a=2"\<close> every entry has a \<open>=\<close> and two entries are named \<open>a\<close>,
  and \<open>getItem('a')\<close> throws \<open>URIError\<close> at the first entry.
\<close>

theorem getItem_throws_before_first_match:
  "split_splitter (str ''%=0; a=1; a=2'') = [str ''%=0'', str ''a=1'', str ''a=2'']
   \<and> decodeURIComponent (takeWhile (\<lambda>x. x \<noteq> cu CHR ''='') (str ''a=1'')) = Some (str ''a'')
   \<and> decodeURIComponent (takeWhile (\<lambda>x. x \<noteq> cu CHR ''='') (str ''a=2'')) = Some (str ''a'')
   \<and> fst (getItem no_hooks (str ''a'') (\<lparr>cookie = str ''%=0; a=1; a=2'', env = ()\<rparr>, []))
       = Inl URIError"
  by (simp add: eval_defs)

text \<open>
  C3, amended. Take the name of an entry to be the decoding of its text before the first
  \<open>=\<close> and its value the decoding of the text after that \<open>=\<close>. When the first entry
  named \<open>key\<close> and every entry before it have a \<open>=\<close> in them, and the names of the
  entries before it all decode, \<open>getItem(key)\<close> returns the value of that first entry,
  or throws \<open>URIError\<close> if the value does not decode; the entries after it, other
  matches among them, are not looked at. So \<open>getItem('a')\<close> on \<open>"a=1; a=2"\<close> returns
  \<open>'1'\<close>. Nothing is said of entries with no \<open>=\<close> before the match.
\<close>

theorem getItem_first_match_wins:
  assumes "read cfg st = (before @ c # after, st')"
    and "\<forall>e\<in>set before. cu CHR ''='' \<in> set e \<and>
           (\<exists>n. decodeURIComponent (takeWhile (\<lambda>x. x \<noteq> cu CHR ''='') e) = Some n \<and> n \<noteq> key)"
    and "cu CHR ''='' \<in> set c"
    and "decodeURIComponent (takeWhile (\<lambda>x. x \<noteq> cu CHR ''='') c) = Some key"
  shows "getItem cfg key st =
           ((case decodeURIComponent (drop 1 (dropWhile (\<lambda>x. x \<noteq> cu CHR ''='') c)) of
               None \<Rightarrow> Inl URIError
             | Some v \<Rightarrow> Inr (JString v)), st')"
  by (simp add: getItem_def assms(1) getItem_loop_first_match [OF assms(2,3,4)])

theorem getItem_first_match_wins_witness:
  "getItem no_hooks (str ''a'') (\<lparr>cookie = str ''a=1; a=2'', env = ()\<rparr>, [])
     = (Inr (JString (str ''1'')), (\<lparr>cookie = str ''a=1; a=2'', env = ()\<rparr>, []))
   \<and> getItem no_hooks (str ''a'') (\<lparr>cookie = str ''b=0; a=1; a=2'', env = ()\<rparr>, [])
     = (Inr (JString (str ''1'')), (\<lparr>cookie = str ''b=0; a=1; a=2'', env = ()\<rparr>, []))"
proof -
  let ?st = "(\<lparr>cookie = str ''a=1; a=2'', env = ()\<rparr>, []) :: unit state"
  let ?st2 = "(\<lparr>cookie = str ''b=0; a=1; a=2'', env = ()\<rparr>, []) :: unit state"
  have r: "read no_hooks ?st = ([] @ str ''a=1'' # [str ''a=2''], ?st)"
    by (simp add: eval_defs)
  have r2: "read no_hooks ?st2 = ([str ''b=0''] @ str ''a=1'' # [str ''a=2''], ?st2)"
    by (simp add: eval_defs)
  have b: "\<forall>e\<in>set []. cu CHR ''='' \<in> set e \<and>
             (\<exists>n. decodeURIComponent (takeWhile (\<lambda>x. x \<noteq> cu CHR ''='') e) = Some n
                  \<and> n \<noteq> str ''a'')"
    by simp
  have b2: "\<forall>e\<in>set [str ''b=0'']. cu CHR ''='' \<in> set e \<and>
             (\<exists>n. decodeURIComponent (takeWhile (\<lambda>x. x \<noteq> cu CHR ''='') e) = Some n
                  \<and> n \<noteq> str ''a'')"
    by (simp add: eval_defs)
  have d: "cu CHR ''='' \<in> set (str ''a=1'')"
    by (simp add: str_def)
  have n: "decodeURIComponent (takeWhile (\<lambda>x. x \<noteq> cu CHR ''='') (str ''a=1'')) = Some (str ''a'')"
    by (simp add: eval_defs)
  have v: "decodeURIComponent (drop 1 (dropWhile (\<lambda>x. x \<noteq> cu CHR ''='') (str ''a=1'')))
             = Some (str ''1'')"
    by (simp add: eval_defs)
  from getItem_first_match_wins [OF r b d n] getItem_first_match_wins [OF r2 b2 d n]
  show ?thesis
    by (simp only: v option.case simp_thms)
qed

lemma indexOf_absent: "c \<notin> set s \<Longrightarrow> indexOf s c = -1"
  by (induction s) (auto simp: Let_def)

lemma entry_without_delimiter:
  assumes "cu CHR ''='' \<notin> set c"
  shows "entry_name c = decodeURIComponent (butlast c)"
    and "entry_value c = decodeURIComponent c"
proof -
  note i = indexOf_absent [OF assms]
  have "nat (max (int (length c) - 1) 0) = length c - 1"
    by (cases c) simp_all
  then show "entry_name c = decodeURIComponent (butlast c)"
    by (simp add: entry_name_def slice'_def butlast_conv_take i)
  show "entry_value c = decodeURIComponent c"
    by (simp add: entry_value_def slice_from_def slice'_def i)
qed

text \<open>
  C8 fails on the code. For an entry with no \<open>=\<close>, \<open>indexOf\<close> gives \<open>-1\<close>, so the name
  is decoded from \<open>slice(0, -1)\<close>, the entry without its last code unit, and the value
  from \<open>slice(0)\<close>, the whole entry (\<open>entry_without_delimiter\<close>): on the line \<open>"abc"\<close>, \<open>getItem('abc')\<close> returns
  \<open>undefined\<close> and \<open>getItem('ab')\<close> returns \<open>'abc'\<close>, while \<open>clear()\<close> removes the
  name \<open>abc\<close>.
\<close>

theorem getItem_entry_without_delimiter:
  "getItem no_hooks (str ''abc'') (\<lparr>cookie = str ''abc'', env = ()\<rparr>, [])
     = (Inr JUndefined, (\<lparr>cookie = str ''abc'', env = ()\<rparr>, []))
   \<and> getItem no_hooks (str ''ab'') (\<lparr>cookie = str ''abc'', env = ()\<rparr>, [])
     = (Inr (JString (str ''abc'')), (\<lparr>cookie = str ''abc'', env = ()\<rparr>, []))
   \<and> snd (snd (clear no_hooks (\<lparr>cookie = str ''abc'', env = ()\<rparr>, [])))
     = [removal (str ''abc'')]"
  by (simp add: eval_defs)

section \<open>The string \<open>setItem\<close> writes\<close>

text \<open>
  C4. For a string key and a string value, the string \<open>setItem\<close> builds is the encoded
  key, \<open>=\<close> and the encoded value, then \<open>; expires=\<close>, \<open>; path=\<close> and \<open>; domain=\<close>
  with their values, each exactly when \<open>opts\<close> has the property, then \<open>; secure\<close>
  exactly when \<open>opts.secure\<close> is truthy, always in this order. This string and
  \<open>{remove: false, value, opts, key}\<close> with the encoded value and key are what \<open>write\<close>
  is called with, and \<open>setItem\<close> returns what \<open>write\<close> returns. A key or a value
  that \<open>encodeURIComponent\<close> rejects makes \<open>setItem\<close> throw before any string is
  built.
\<close>

theorem setItem_format:
  "setItem cfg (JString k) (JString v) opts st =
     (case (encodeURIComponent k, encodeURIComponent v) of
        (Some ek, Some ev) \<Rightarrow>
          (let given = (case opts of None \<Rightarrow> empty_opts | Some g \<Rightarrow> g);
               c = ek @ str ''='' @ ev
                   @ (case expires given of None \<Rightarrow> [] | Some e \<Rightarrow> str ''; expires='' @ e)
                   @ (case path given of None \<Rightarrow> [] | Some p \<Rightarrow> str ''; path='' @ p)
                   @ (case domain given of None \<Rightarrow> [] | Some d \<Rightarrow> str ''; domain='' @ d)
                   @ (if truthy (secure given) then str ''; secure'' else []);
               m = \<lparr>meta_remove = False, meta_value = ev, meta_opts = given, meta_key = ek\<rparr>
           in (Inr (fst (write' cfg c m st)), snd (write' cfg c m st)))
      | _ \<Rightarrow> (Inl URIError, st))"
proof (cases "encodeURIComponent v")
  case None
  then show ?thesis by (simp add: setItem_def split: option.split)
next
  case ev: (Some ev)
  show ?thesis
  proof (cases "encodeURIComponent k")
    case None
    with ev show ?thesis by (simp add: setItem_def)
  next
    case ek: (Some ek)
    define given where "given = (case opts of None \<Rightarrow> empty_opts | Some g \<Rightarrow> g)"
    have "setItem cfg (JString k) (JString v) opts st =
        (let c = ek @ str ''='' @ ev;
             c = (case expires given of None \<Rightarrow> c | Some e \<Rightarrow> c @ str ''; expires='' @ e);
             c = (case path given of None \<Rightarrow> c | Some p \<Rightarrow> c @ str ''; path='' @ p);
             c = (case domain given of None \<Rightarrow> c | Some d \<Rightarrow> c @ str ''; domain='' @ d);
             c = (if truthy (secure given) then c @ str ''; secure'' else c);
             w = write' cfg c
                   \<lparr>meta_remove = False, meta_value = ev, meta_opts = given, meta_key = ek\<rparr> st
         in (Inr (fst w), snd w))"
      by (simp add: setItem_def ev ek given_def Let_def case_prod_beta)
    also have "\<dots> =
        (let c = ek @ str ''='' @ ev
                 @ (case expires given of None \<Rightarrow> [] | Some e \<Rightarrow> str ''; expires='' @ e)
                 @ (case path given of None \<Rightarrow> [] | Some p \<Rightarrow> str ''; path='' @ p)
                 @ (case domain given of None \<Rightarrow> [] | Some d \<Rightarrow> str ''; domain='' @ d)
                 @ (if truthy (secure given) then str ''; secure'' else []);
             m = \<lparr>meta_remove = False, meta_value = ev, meta_opts = given, meta_key = ek\<rparr>
         in (Inr (fst (write' cfg c m st)), snd (write' cfg c m st)))"
      by (cases "expires given"; cases "path given"; cases "domain given")
         (simp_all add: Let_def)
    finally show ?thesis by (simp add: ev ek given_def Let_def)
  qed
qed

theorem setItem_format_witness:
  "setItem no_hooks (JString (str ''k'')) (JString (str ''v''))
       (Some \<lparr>expires = Some (str ''E''), path = Some (str ''/''), domain = Some (str ''x''),
              secure = JBoolean True\<rparr>)
       (\<lparr>cookie = [], env = ()\<rparr>, []) =
     (Inr (JString (str ''k=v; expires=E; path=/; domain=x; secure'')),
      (\<lparr>cookie = str ''k=v; expires=E; path=/; domain=x; secure'', env = ()\<rparr>,
       [(str ''k=v; expires=E; path=/; domain=x; secure'',
         \<lparr>meta_remove = False, meta_value = str ''v'',
          meta_opts = \<lparr>expires = Some (str ''E''), path = Some (str ''/''),
                       domain = Some (str ''x''), secure = JBoolean True\<rparr>,
          meta_key = str ''k''\<rparr>)]))
   \<and> fst (setItem no_hooks (JString (str ''a b'')) (JString (str ''1;2''))
            (Some \<lparr>expires = None, path = Some (str ''/''), domain = None, secure = JNumber (Finite 0)\<rparr>)
            (\<lparr>cookie = [], env = ()\<rparr>, []))
       = Inr (JString (str ''a%20b=1%3B2; path=/''))"
  using setItem_format
          [of no_hooks "str ''k''" "str ''v''"
              "Some \<lparr>expires = Some (str ''E''), path = Some (str ''/''),
                     domain = Some (str ''x''), secure = JBoolean True\<rparr>"
              "(\<lparr>cookie = [], env = ()\<rparr>, [])"]
        setItem_format
          [of no_hooks "str ''a b''" "str ''1;2''"
              "Some \<lparr>expires = None, path = Some (str ''/''), domain = None,
                     secure = JNumber (Finite 0)\<rparr>"
              "(\<lparr>cookie = [], env = ()\<rparr>, [])"]
  by (simp add: no_hooks_def write'_def str_def cu_def unescaped_def is_lead_def is_trail_def
        utf8_encode_def escape_octet_def hex_digit_def Let_def)

section \<open>Encoding and decoding again\<close>

text \<open>An escape \<open>%XX\<close> parses as the octet it was made from.\<close>

lemma hex_digits_parse: "list_all (\<lambda>n. hex_value (hex_digit n) = Some n) [0..<16]"
  by code_simp

lemma hex_value_hex_digit: "n < 16 \<Longrightarrow> hex_value (hex_digit n) = Some n"
  using hex_digits_parse by (simp add: list_all_iff)

lemma ParseHexOctet_escape:
  assumes "b < 256"
  shows "ParseHexOctet (hex_digit (b div 16)) (hex_digit (b mod 16)) = Some b"
proof -
  from assms have "b div 16 < 16" by simp
  then show ?thesis
    by (simp add: ParseHexOctet_def hex_value_hex_digit)
qed

lemma continuation_escapes:
  "\<forall>b\<in>set bs. b < 256 \<Longrightarrow>
   continuation (length bs) (concat (map escape_octet bs) @ rest) = Some (bs, rest)"
  by (induction bs) (simp_all add: escape_octet_def ParseHexOctet_escape)

text \<open>The octets of \<open>utf8_encode\<close> decode to the code point they encode.\<close>

lemma radix64_3:
  "(cp::nat) div 4096 * 4096 + cp div 64 mod 64 * 64 + cp mod 64 = cp"
proof -
  define q where "q = cp div 64"
  define a where "a = cp mod 64"
  define b where "b = q mod 64"
  define c where "c = q div 64"
  have 1: "cp = q * 64 + a" by (simp add: q_def a_def)
  have 2: "q = c * 64 + b" by (simp add: b_def c_def)
  have 3: "cp div 4096 = c" by (simp add: c_def q_def div_mult2_eq)
  have "c * 4096 + b * 64 + a = cp" using 1 2 by linarith
  then show ?thesis by (simp add: 3 b_def a_def q_def)
qed

lemma radix64_4:
  "(cp::nat) div 262144 * 262144 + cp div 4096 mod 64 * 4096 + cp div 64 mod 64 * 64
     + cp mod 64 = cp"
proof -
  define q where "q = cp div 64"
  define a where "a = cp mod 64"
  define b where "b = q mod 64"
  define r where "r = q div 64"
  define c where "c = r mod 64"
  define d where "d = r div 64"
  have 1: "cp = q * 64 + a" by (simp add: q_def a_def)
  have 2: "q = r * 64 + b" by (simp add: b_def r_def)
  have 3: "r = d * 64 + c" by (simp add: c_def d_def)
  have 4: "cp div 4096 = r" by (simp add: r_def q_def div_mult2_eq)
  have 5: "cp div 262144 = d" by (simp add: d_def r_def q_def div_mult2_eq)
  have "d * 262144 + c * 4096 + b * 64 + a = cp" using 1 2 3 by linarith
  then show ?thesis by (simp add: 4 5 c_def b_def a_def r_def q_def)
qed

lemma is_cont_low: "is_cont (128 + x mod 64)"
  by (simp add: is_cont_def)

lemma utf8_decode_encode2:
  assumes "0x80 \<le> cp" and "cp < 0x800"
  shows "utf8_decode (utf8_encode cp) = Some cp"
  using assms by (simp add: utf8_encode_def is_cont_low)

lemma utf8_decode_encode3:
  assumes "0x800 \<le> cp" and "cp < 0x10000" and "\<not> (0xD800 \<le> cp \<and> cp \<le> 0xDFFF)"
  shows "utf8_decode (utf8_encode cp) = Some cp"
  using assms by (simp add: utf8_encode_def is_cont_low radix64_3)

lemma utf8_decode_encode4:
  assumes "0x10000 \<le> cp" and "cp < 0x110000"
  shows "utf8_decode (utf8_encode cp) = Some cp"
  using assms by (simp add: utf8_encode_def is_cont_low radix64_4)

lemma mod64_less: "(n::nat) mod 64 < 128"
  by (rule less_trans [OF mod_less_divisor]) simp_all

lemma utf8_encode_octets: "cp < 0x110000 \<Longrightarrow> \<forall>b\<in>set (utf8_encode cp). b < 256"
proof -
  assume cp: "cp < 0x110000"
  then have "cp div 262144 < 8" by simp
  moreover have "cp < 65536 \<Longrightarrow> cp div 4096 < 32" by simp
  moreover have "cp < 2048 \<Longrightarrow> cp div 64 < 64" by simp
  ultimately show ?thesis
    by (simp add: utf8_encode_def mod64_less)
qed

text \<open>
  Decoding the escapes of one code point: \<open>%XX\<close> of an ASCII code unit gives that code
  unit, and the escapes of the UTF-8 octets of a code point that is no surrogate give
  its UTF-16 code units.
\<close>

lemma decode_escape_ascii:
  assumes "b < 0x80"
  shows "decodeURIComponent (escape_octet b @ rest) =
           map_option ((#) (of_nat b)) (decodeURIComponent rest)"
proof -
  from assms have "ParseHexOctet (hex_digit (b div 16)) (hex_digit (b mod 16)) = Some b"
    by (simp add: ParseHexOctet_escape)
  moreover from assms have "leading_ones b = 0"
    by (simp add: leading_ones_def)
  ultimately show ?thesis
    by (simp add: escape_octet_def decodeURIComponent.simps)
qed

lemma decode_escapes:
  assumes n: "leading_ones b0 = Suc (length bs)" and "1 \<le> length bs" and "length bs \<le> 3"
    and b0: "b0 < 256" and bs: "\<forall>b\<in>set bs. b < 256"
    and v: "utf8_decode (b0 # bs) = Some v"
  shows "decodeURIComponent (concat (map escape_octet (b0 # bs)) @ rest) =
           map_option ((@) (UTF16EncodeCodePoint v)) (decodeURIComponent rest)"
proof -
  have p: "ParseHexOctet (hex_digit (b0 div 16)) (hex_digit (b0 mod 16)) = Some b0"
    using b0 by (rule ParseHexOctet_escape)
  have c: "continuation (length bs) (concat (map escape_octet bs) @ rest) = Some (bs, rest)"
    by (rule continuation_escapes [OF bs])
  from assms(2) have ne: "bs \<noteq> []" by auto
  have "decodeURIComponent (concat (map escape_octet (b0 # bs)) @ rest) =
        decodeURIComponent (cu CHR ''%'' # hex_digit (b0 div 16) # hex_digit (b0 mod 16)
                              # (concat (map escape_octet bs) @ rest))"
    by (simp add: escape_octet_def)
  also have "\<dots> = map_option ((@) (UTF16EncodeCodePoint v)) (decodeURIComponent rest)"
    using assms(3) by (subst decodeURIComponent.simps) (simp add: p c v n ne)
  finally show ?thesis .
qed

lemma utf8_encode_shape:
  assumes "0x80 \<le> cp" and "cp < 0x110000"
  shows "\<exists>b0 bs. utf8_encode cp = b0 # bs \<and> leading_ones b0 = Suc (length bs)
           \<and> 1 \<le> length bs \<and> length bs \<le> 3"
proof -
  have 2: "cp < 0x800 \<Longrightarrow> cp div 64 < 32" by simp
  have 3: "cp < 0x10000 \<Longrightarrow> cp div 4096 < 16" by simp
  from assms have 4: "cp div 262144 < 8" by simp
  show ?thesis
    using assms 2 3 4 by (simp add: utf8_encode_def leading_ones_def)
qed

lemma decode_escaped_code_point:
  assumes "0x80 \<le> cp" and "cp < 0x110000" and "\<not> (0xD800 \<le> cp \<and> cp \<le> 0xDFFF)"
  shows "decodeURIComponent (concat (map escape_octet (utf8_encode cp)) @ rest) =
           map_option ((@) (UTF16EncodeCodePoint cp)) (decodeURIComponent rest)"
proof -
  from utf8_encode_shape [OF assms(1,2)] obtain b0 bs
    where e: "utf8_encode cp = b0 # bs" and n: "leading_ones b0 = Suc (length bs)"
      and l: "1 \<le> length bs" "length bs \<le> 3"
    by blast
  from utf8_encode_octets [OF assms(2)] e have b: "b0 < 256" "\<forall>b\<in>set bs. b < 256"
    by simp_all
  have "utf8_decode (utf8_encode cp) = Some cp"
  proof (cases "cp < 0x800")
    case True
    with assms(1) show ?thesis by (simp add: utf8_decode_encode2)
  next
    case False
    show ?thesis
    proof (cases "cp < 0x10000")
      case True
      with False assms(3) show ?thesis by (simp add: utf8_decode_encode3)
    next
      case False
      with assms(2) show ?thesis by (simp add: utf8_decode_encode4)
    qed
  qed
  then have v: "utf8_decode (b0 # bs) = Some cp" by (simp add: e)
  from decode_escapes [OF n l b v] show ?thesis by (simp only: e)
qed

text \<open>Surrogates, and the code units of a code point.\<close>

lemma is_lead_unat: "is_lead c \<longleftrightarrow> 0xD800 \<le> unat c \<and> unat c \<le> 0xDBFF"
  by (simp add: is_lead_def word_le_nat_alt)

lemma is_trail_unat: "is_trail c \<longleftrightarrow> 0xDC00 \<le> unat c \<and> unat c \<le> 0xDFFF"
  by (simp add: is_trail_def word_le_nat_alt)

lemma unat_code_unit: "unat (c :: code_unit) < 0x10000"
  using unsigned_less [of c, where ?'a = nat] by simp

lemma UTF16Encode_single: "UTF16EncodeCodePoint (unat (c :: code_unit)) = [c]"
  using unat_code_unit [of c] by (simp add: UTF16EncodeCodePoint_def)

lemma pair_range:
  assumes "is_lead c" and "is_trail d"
  shows "0x10000 \<le> UTF16SurrogatePairToCodePoint c d"
    and "UTF16SurrogatePairToCodePoint c d < 0x110000"
proof -
  from assms have "unat c - 0xD800 \<le> 0x3FF" and "unat d - 0xDC00 \<le> 0x3FF"
    by (auto simp: is_lead_unat is_trail_unat)
  then have "(unat c - 0xD800) * 0x400 \<le> 0x3FF * 0x400"
    by (intro mult_le_mono1)
  with \<open>unat d - 0xDC00 \<le> 0x3FF\<close>
  show "UTF16SurrogatePairToCodePoint c d < 0x110000"
    by (simp add: UTF16SurrogatePairToCodePoint_def)
  show "0x10000 \<le> UTF16SurrogatePairToCodePoint c d"
    by (simp add: UTF16SurrogatePairToCodePoint_def)
qed

lemma UTF16Encode_pair:
  assumes "is_lead c" and "is_trail d"
  shows "UTF16EncodeCodePoint (UTF16SurrogatePairToCodePoint c d) = [c, d]"
proof -
  define x where "x = unat c - 0xD800"
  define y where "y = unat d - 0xDC00"
  from assms have x: "unat c = x + 0xD800" and y: "unat d = y + 0xDC00" and y': "y < 0x400"
    by (auto simp: x_def y_def is_lead_unat is_trail_unat)
  have cp: "UTF16SurrogatePairToCodePoint c d - 0x10000 = x * 0x400 + y"
    by (simp add: UTF16SurrogatePairToCodePoint_def x_def y_def)
  have "(x * 0x400 + y) div 0x400 = x" and "(x * 0x400 + y) mod 0x400 = y"
    using y' by simp_all
  then have "UTF16EncodeCodePoint (UTF16SurrogatePairToCodePoint c d)
      = [of_nat (unat c), of_nat (unat d)]"
    using pair_range(1) [OF assms]
    by (simp add: UTF16EncodeCodePoint_def cp x y)
  then show ?thesis by simp
qed

lemma unescaped_not_special:
  assumes "unescaped c"
  shows "c \<noteq> cu CHR ''%''" and "c \<noteq> cu CHR '';''" and "c \<noteq> cu CHR ''=''"
  using assms by (auto simp: unescaped_def str_def cu_def)

lemma lead_not_trail: "is_lead c \<Longrightarrow> \<not> is_trail c"
  by (simp add: is_lead_unat is_trail_unat)

lemma unescaped_not_surrogate:
  assumes "unescaped c"
  shows "\<not> is_lead c" and "\<not> is_trail c"
  using assms by (auto simp: unescaped_def str_def cu_def is_lead_def is_trail_def)

lemma encode_unescaped:
  "unescaped c \<Longrightarrow>
   encodeURIComponent (c # r) = map_option ((#) c) (encodeURIComponent r)"
  by simp

lemma encode_single:
  "\<not> unescaped c \<Longrightarrow> \<not> is_lead c \<Longrightarrow> \<not> is_trail c \<Longrightarrow>
   encodeURIComponent (c # r) =
     map_option ((@) (concat (map escape_octet (utf8_encode (unat c))))) (encodeURIComponent r)"
  by simp

lemma encode_pair:
  "is_lead c \<Longrightarrow> is_trail d \<Longrightarrow>
   encodeURIComponent (c # d # r) =
     map_option ((@) (concat (map escape_octet (utf8_encode (UTF16SurrogatePairToCodePoint c d)))))
       (encodeURIComponent r)"
  using unescaped_not_surrogate(1) [of c] by (auto simp: lead_not_trail)

lemma encode_lone_trail: "is_trail c \<Longrightarrow> encodeURIComponent (c # r) = None"
  using unescaped_not_surrogate(2) [of c] by auto

lemma encode_lone_lead_end: "is_lead c \<Longrightarrow> encodeURIComponent [c] = None"
  using unescaped_not_surrogate(1) [of c] by auto

lemma encode_lone_lead:
  "is_lead c \<Longrightarrow> \<not> is_trail d \<Longrightarrow> encodeURIComponent (c # d # r) = None"
  using unescaped_not_surrogate(1) [of c] by auto

declare encodeURIComponent.simps(2) [simp del]

lemma hex_digits_plain:
  "list_all (\<lambda>n. hex_digit n \<noteq> cu CHR '';'' \<and> hex_digit n \<noteq> cu CHR ''='') [0..<16]"
  by code_simp

lemma escapes_plain:
  assumes "\<forall>b\<in>set bs. b < 256"
  shows "\<forall>x\<in>set (concat (map escape_octet bs)). x \<noteq> cu CHR '';'' \<and> x \<noteq> cu CHR ''=''"
proof -
  have h: "n < 16 \<Longrightarrow> hex_digit n \<noteq> cu CHR '';'' \<and> hex_digit n \<noteq> cu CHR ''=''" for n
    using hex_digits_plain by (simp add: list_all_iff)
  have p: "cu CHR ''%'' \<noteq> cu CHR '';'' \<and> cu CHR ''%'' \<noteq> cu CHR ''=''"
    by (simp add: cu_def)
  have "b < 256 \<Longrightarrow> \<forall>x\<in>set (escape_octet b). x \<noteq> cu CHR '';'' \<and> x \<noteq> cu CHR ''=''" for b
  proof -
    assume "b < 256"
    then have "b div 16 < 16" and "b mod 16 < 16" by simp_all
    with h [of "b div 16"] h [of "b mod 16"] p show ?thesis
      by (simp add: escape_octet_def)
  qed
  with assms show ?thesis by auto
qed

text \<open>
  What \<open>encodeURIComponent\<close> returns decodes to the string it was given, and has
  neither \<open>;\<close> nor \<open>=\<close> in it.
\<close>

lemma decode_encode:
  "encodeURIComponent s = Some e \<Longrightarrow>
   decodeURIComponent e = Some s \<and> (\<forall>x\<in>set e. x \<noteq> cu CHR '';'' \<and> x \<noteq> cu CHR ''='')"
proof (induction s arbitrary: e rule: length_induct)
  case (1 s)
  note IH = "1.IH" [rule_format]
  show ?case
  proof (cases s)
    case Nil
    with "1.prems" show ?thesis by (simp add: decodeURIComponent_Nil)
  next
    case (Cons c r)
    show ?thesis
    proof (cases "unescaped c")
      case True
      with "1.prems" Cons obtain e' where e': "encodeURIComponent r = Some e'" and e: "e = c # e'"
        by (auto simp: encode_unescaped)
      from IH [of r e'] Cons e'
      have "decodeURIComponent e' = Some r"
        and "\<forall>x\<in>set e'. x \<noteq> cu CHR '';'' \<and> x \<noteq> cu CHR ''=''"
        by simp_all
      with unescaped_not_special [OF True] show ?thesis
        by (simp add: e Cons decodeURIComponent.simps)
    next
      case False
      show ?thesis
      proof (cases "is_lead c")
        case lead: True
        from "1.prems" Cons lead obtain d r' where r: "r = d # r'" and d: "is_trail d"
          by (cases r; cases "is_trail (hd r)")
             (auto simp: encode_lone_lead_end encode_lone_lead)
        let ?cp = "UTF16SurrogatePairToCodePoint c d"
        let ?esc = "concat (map escape_octet (utf8_encode ?cp))"
        from "1.prems" Cons r lead d obtain e'
          where e': "encodeURIComponent r' = Some e'" and e: "e = ?esc @ e'"
          by (auto simp: encode_pair)
        from IH [of r' e'] Cons r e'
        have dec: "decodeURIComponent e' = Some r'"
          and plain: "\<forall>x\<in>set e'. x \<noteq> cu CHR '';'' \<and> x \<noteq> cu CHR ''=''"
          by simp_all
        note rng = pair_range [OF lead d]
        have "decodeURIComponent (?esc @ e') =
                map_option ((@) (UTF16EncodeCodePoint ?cp)) (decodeURIComponent e')"
          using rng by (intro decode_escaped_code_point) simp_all
        then have "decodeURIComponent e = Some s"
          by (simp add: e dec UTF16Encode_pair [OF lead d] Cons r)
        moreover have "\<forall>x\<in>set ?esc. x \<noteq> cu CHR '';'' \<and> x \<noteq> cu CHR ''=''"
          by (rule escapes_plain [OF utf8_encode_octets [OF rng(2)]])
        ultimately show ?thesis using plain by (auto simp: e)
      next
        case nolead: False
        from "1.prems" Cons have notrail: "\<not> is_trail c"
          by (auto simp: encode_lone_trail)
        let ?cp = "unat c"
        let ?esc = "concat (map escape_octet (utf8_encode ?cp))"
        from "1.prems" Cons False nolead notrail obtain e'
          where e': "encodeURIComponent r = Some e'" and e: "e = ?esc @ e'"
          by (auto simp: encode_single)
        from IH [of r e'] Cons e'
        have dec: "decodeURIComponent e' = Some r"
          and plain: "\<forall>x\<in>set e'. x \<noteq> cu CHR '';'' \<and> x \<noteq> cu CHR ''=''"
          by simp_all
        have lt: "?cp < 0x110000"
          using unat_code_unit [of c] by simp
        have "decodeURIComponent (?esc @ e') = Some (c # r)"
        proof (cases "?cp < 0x80")
          case True
          then have "?esc = escape_octet ?cp" by (simp add: utf8_encode_def)
          with decode_escape_ascii [OF True, of e'] show ?thesis
            by (simp add: dec)
        next
          case False
          have "decodeURIComponent (?esc @ e') =
                  map_option ((@) (UTF16EncodeCodePoint ?cp)) (decodeURIComponent e')"
            using False lt nolead notrail
            by (intro decode_escaped_code_point) (auto simp: is_lead_unat is_trail_unat)
          then show ?thesis by (simp add: dec UTF16Encode_single)
        qed
        then have "decodeURIComponent e = Some s"
          by (simp add: e Cons)
        moreover have "\<forall>x\<in>set ?esc. x \<noteq> cu CHR '';'' \<and> x \<noteq> cu CHR ''=''"
          by (rule escapes_plain [OF utf8_encode_octets [OF lt]])
        ultimately show ?thesis using plain by (auto simp: e)
      qed
    qed
  qed
qed

text \<open>\<open>encodeURIComponent\<close> throws exactly on the strings that are not well formed.\<close>

lemma encode_well_formed: "encodeURIComponent s \<noteq> None \<longleftrightarrow> well_formed s"
proof (induction s rule: well_formed.induct)
  case 1
  show ?case by simp
next
  case (2 c)
  show ?case
  proof (cases "unescaped c")
    case True
    with unescaped_not_surrogate [OF True] show ?thesis
      by (simp add: encode_unescaped)
  next
    case False
    then show ?thesis
      by (cases "is_lead c"; cases "is_trail c")
         (simp_all add: encode_lone_lead_end encode_lone_trail encode_single)
  qed
next
  case (3 c d s)
  show ?case
  proof (cases "is_lead c")
    case True
    with 3 show ?thesis
      by (cases "is_trail d") (simp_all add: encode_pair encode_lone_lead)
  next
    case nolead: False
    show ?thesis
    proof (cases "is_trail c")
      case True
      with nolead show ?thesis by (simp add: encode_lone_trail)
    next
      case False
      with nolead 3 show ?thesis
        by (cases "unescaped c") (simp_all add: encode_unescaped encode_single)
    qed
  qed
qed

text \<open>The entry \<open>setItem\<close> writes for an encoded key and value, read back.\<close>

lemma split_splitter_single:
  assumes "\<forall>x\<in>set s. x \<noteq> cu CHR '';''"
  shows "split_splitter s = [s]"
proof -
  from assms have "dropWhile (\<lambda>c. c \<noteq> cu CHR '';'') s = []"
    by simp
  then show ?thesis by (subst split_splitter.simps) (simp only: list.case)
qed

lemma entry_of_encoded:
  assumes "encodeURIComponent k = Some ek" and "encodeURIComponent v = Some ev"
  shows "split_splitter (ek @ str ''='' @ ev) = [ek @ str ''='' @ ev]"
    and "entry_name (ek @ str ''='' @ ev) = Some k"
    and "entry_value (ek @ str ''='' @ ev) = Some v"
proof -
  note k = decode_encode [OF assms(1)] and v = decode_encode [OF assms(2)]
  have eq: "str ''='' = [cu CHR ''='']" by (simp add: str_def)
  have "cu CHR ''='' \<noteq> cu CHR '';''" by (simp add: cu_def)
  with k v show "split_splitter (ek @ str ''='' @ ev) = [ek @ str ''='' @ ev]"
    by (intro split_splitter_single) (auto simp: eq)
  from k have i: "indexOf (ek @ cu CHR ''='' # ev) (cu CHR ''='') = int (length ek)"
    by (intro indexOf_append) simp
  from k show "entry_name (ek @ str ''='' @ ev) = Some k"
    by (simp add: entry_name_def eq i slice'_prefix)
  from v show "entry_value (ek @ str ''='' @ ev) = Some v"
    by (simp add: entry_value_def eq i slice_from_suffix)
qed

section \<open>Setting and getting\<close>

text \<open>
  C1 as stated fails for a value with an unpaired surrogate: \<open>encodeURIComponent\<close>
  throws \<open>URIError\<close>, so \<open>setItem('k', '\uD800')\<close> throws and stores nothing, and
  \<open>getItem('k')\<close> afterwards does not return the value.
\<close>

theorem setItem_throws_on_lone_surrogate:
  "fst (setItem no_hooks (JString (str ''k'')) (JString [0xD800]) None
          (\<lparr>cookie = [], env = ()\<rparr>, [])) = Inl URIError
   \<and> fst (getItem no_hooks (str ''k'')
            (snd (setItem no_hooks (JString (str ''k'')) (JString [0xD800]) None
                    (\<lparr>cookie = [], env = ()\<rparr>, []))))
       \<noteq> Inr (JString [0xD800])"
  by (simp add: setItem_def eval_defs encodeURIComponent.simps(2) unescaped_def is_lead_def
        is_trail_def)

text \<open>
  C1, amended. For a key and a value that are well-formed strings (no unpaired
  surrogate; they may contain \<open>;\<close>, \<open>=\<close>, white space and non-ASCII characters), on a
  store with no hooks, \<open>setItem(k, v)\<close> returns the string it has stored in the cookie
  field, and \<open>getItem(k)\<close> then returns exactly \<open>v\<close>.
\<close>

theorem setItem_getItem_roundtrip:
  assumes "well_formed k" and "well_formed v"
  shows "fst (setItem no_hooks (JString k) (JString v) None st)
           = Inr (JString (cookie (fst (snd (setItem no_hooks (JString k) (JString v) None st)))))
    \<and> fst (getItem no_hooks k (snd (setItem no_hooks (JString k) (JString v) None st)))
           = Inr (JString v)"
proof -
  from assms obtain ek ev
    where ek: "encodeURIComponent k = Some ek" and ev: "encodeURIComponent v = Some ev"
    using encode_well_formed [of k] encode_well_formed [of v] by auto
  obtain h t where st: "st = (h, t)" by (cases st)
  let ?c = "ek @ str ''='' @ ev"
  let ?m = "\<lparr>meta_remove = False, meta_value = ev, meta_opts = empty_opts, meta_key = ek\<rparr>"
  let ?st' = "(h\<lparr>cookie := ?c\<rparr>, t @ [(?c, ?m)])"
  have set: "setItem no_hooks (JString k) (JString v) None st = (Inr (JString ?c), ?st')"
    by (simp add: setItem_def ek ev st write'_def no_hooks_def empty_opts_def Let_def)
  note entry = entry_of_encoded [OF ek ev]
  have "read no_hooks ?st' = ([?c], ?st')"
    by (simp add: read_def no_hooks_def entry(1))
  then have "getItem no_hooks k ?st' = (Inr (JString v), ?st')"
    by (simp only: getItem_def prod.case getItem_loop_Cons entry(2,3) option.case simp_thms
          if_True)
  with set show ?thesis by simp
qed

theorem setItem_getItem_roundtrip_witness:
  "fst (getItem no_hooks (str ''k=1'')
          (snd (setItem no_hooks (JString (str ''k=1''))
                  (JString (str ''a;b = c'' @ [0xE9, 0x20AC, 0xD83D, 0xDE00])) None
                  (\<lparr>cookie = str ''x=y'', env = ()\<rparr>, []))))
     = Inr (JString (str ''a;b = c'' @ [0xE9, 0x20AC, 0xD83D, 0xDE00]))"
proof -
  have k: "well_formed (str ''k=1'')"
    by (simp add: str_def cu_def is_lead_def is_trail_def)
  have v: "well_formed (str ''a;b = c'' @ [0xE9, 0x20AC, 0xD83D, 0xDE00])"
    by (simp add: str_def cu_def is_lead_def is_trail_def)
  from setItem_getItem_roundtrip [OF k v, THEN conjunct2] show ?thesis .
qed

end
